theory Spec2Isabelle
  imports
    Main
    "HOL-Library.AList"
    "HOL-Library.Char_ord"
    "HOL-Library.List_Lexorder"
    "HOL-Library.Option_ord"
    "HOL-Library.Product_Lexorder"
begin

section \<open>Data model\<close>

text \<open>
  A \<open>ResourcePath\<close> is an ordered sequence of string segments.  A \<open>DocumentKey\<close> wraps
  the path of a document; the model identifies a key with its path.

  Modelled from the spec: \<open>DocumentKey.comparator\<close> (model/document_key.ts and
  model/path.ts are not among the sources) is the component-wise comparison of the segments,
  a shorter path before its extensions.  This is the lexicographic order on lists of
  strings, with strings compared character by character, which is the order \<open><\<close> of
  \<open>string list\<close> here.  Sets and maps keyed by \<open>DocumentKey\<close> compare keys by this
  equality.
\<close>

type_synonym resource_path = "string list"
type_synonym document_key = "string list"

definition child :: "resource_path \<Rightarrow> string \<Rightarrow> resource_path" where
  "child p seg = p @ [seg]"

definition isPrefixOf :: "resource_path \<Rightarrow> resource_path \<Rightarrow> bool" where
  "isPrefixOf p other = (length p \<le> length other \<and> take (length p) other = p)"

text \<open>
  Modelled from the spec: \<open>getCollectionGroup\<close> is the last collection segment of the
  key's path (the segment before the document id), absent when there is none.
\<close>

definition getCollectionGroup :: "document_key \<Rightarrow> string option" where
  "getCollectionGroup k = (if 2 \<le> length k then Some (k ! (length k - 2)) else None)"

text \<open>
  Modelled from the spec: a \<open>Mutation\<close> carries its target key and is one of a closed set
  of variants, of which \<open>PatchMutation\<close> is distinguished.  The contents are opaque to the
  overlay cache and are a number here.
\<close>

datatype mutation =
    SetMutation (key: document_key) (content: nat)
  | PatchMutation (key: document_key) (content: nat)
  | DeleteMutation (key: document_key)

fun isPatchMutation :: "mutation \<Rightarrow> bool" where
  "isPatchMutation (PatchMutation k v) = True"
| "isPatchMutation m = False"

text \<open>Modelled from the spec: an \<open>Overlay\<close> pairs a largest batch id with a mutation;
  \<open>getKey\<close> returns the key of the mutation.\<close>

record overlay =
  largestBatchId :: int
  mutation :: mutation

definition getKey :: "overlay \<Rightarrow> document_key" where
  "getKey ov = key (mutation ov)"

datatype error = TypeError

text \<open>
  What a lookup hands back in JavaScript.  \<open>Map.prototype.get\<close> of the language returns
  \<open>undefined\<close> for a key that is not in the map, never \<open>null\<close>.  The test
  \<open>x === null\<close> of the source on such a value is \<open>x = Null\<close>, and it is false of
  \<open>undefined\<close>.  A value of a type \<open>T | null\<close>, such as the result of the repository's
  \<open>SortedMap.get\<close>, is a \<open>T option\<close>, with \<open>None\<close> for \<open>null\<close>.
\<close>

datatype 'a js_value = Undefined | Null | Obj 'a

subsection \<open>The language's Map and Set\<close>

text \<open>
  An ES6 \<open>Map\<close> is an association list in insertion order: \<open>set\<close> replaces the value of a
  key in place or appends (\<open>AList.update\<close>), \<open>delete\<close> is \<open>AList.delete\<close>.  A \<open>Set\<close> is
  a list without repetition, in insertion order.
\<close>

definition map_has :: "('k \<times> 'v) list \<Rightarrow> 'k \<Rightarrow> bool" where
  "map_has m k = (map_of m k \<noteq> None)"

definition map_get :: "('k \<times> 'v) list \<Rightarrow> 'k \<Rightarrow> 'v js_value" where
  "map_get m k = (case map_of m k of None \<Rightarrow> Undefined | Some v \<Rightarrow> Obj v)"

definition set_add :: "'a \<Rightarrow> 'a list \<Rightarrow> 'a list" where
  "set_add x s = (if x \<in> set s then s else s @ [x])"

definition set_delete :: "'a \<Rightarrow> 'a list \<Rightarrow> 'a list" where
  "set_delete x s = removeAll x s"

subsection \<open>Sorted Key Map\<close>

text \<open>
  Modelled from the spec: the Sorted Key Map (util/sorted_map.ts is not among the sources)
  is an ordered associative container with \<open>get\<close>, \<open>insert\<close>, \<open>remove\<close>, an ascending
  iterator, an iterator from the first key not below a given key, and a reverse iterator.
  The source calls \<open>insert\<close> and \<open>remove\<close> for their effect on the map, and tests the
  result of \<open>get\<close> against \<open>null\<close>.  The map is a list of entries in ascending key order.
\<close>

fun sm_insert :: "'k::linorder \<Rightarrow> 'v \<Rightarrow> ('k \<times> 'v) list \<Rightarrow> ('k \<times> 'v) list" where
  "sm_insert k v [] = [(k, v)]"
| "sm_insert k v (e # rest) =
     (if k < fst e then (k, v) # e # rest
      else if k = fst e then (k, v) # rest
      else e # sm_insert k v rest)"


definition sm_get :: "('k \<times> 'v) list \<Rightarrow> 'k \<Rightarrow> 'v option" where
  "sm_get m k = map_of m k"

definition getIteratorFrom :: "'k::linorder \<Rightarrow> ('k \<times> 'v) list \<Rightarrow> ('k \<times> 'v) list" where
  "getIteratorFrom k m = dropWhile (\<lambda>e. fst e < k) m"

definition getReverseIterator :: "('k \<times> 'v) list \<Rightarrow> ('k \<times> 'v) list" where
  "getReverseIterator m = rev m"

section \<open>The in-memory overlay cache\<close>

text \<open>
  \<open>MemoryDocumentOverlayCache\<close>: \<open>overlays\<close> is a \<open>SortedMap\<close> from key to overlay,
  \<open>overlayByBatchId\<close> a language \<open>Map\<close> from batch id to a \<open>Set\<close> of keys.

  An operation that throws leaves the object as it was at the throw: the result of an
  operation is the error, if any, together with the state.
\<close>

record memory_cache =
  overlays :: "(document_key \<times> overlay) list"
  overlayByBatchId :: "(int \<times> document_key list) list"

definition empty_cache :: memory_cache where
  "empty_cache = \<lparr>overlays = [], overlayByBatchId = []\<rparr>"

type_synonym 's outcome = "error option \<times> 's"

definition getOverlay :: "memory_cache \<Rightarrow> document_key \<Rightarrow> overlay option" where
  "getOverlay c k = sm_get (overlays c) k"

text \<open>
  Lines 50 to 55 of \<open>saveOverlay\<close>: the key leaves the bucket of the batch id of the
  overlay it had.  The receiver of \<open>delete\<close> is the result of \<open>Map.get\<close>; the call
  throws when that is \<open>undefined\<close>.
\<close>

definition removeAssociation :: "mutation \<Rightarrow> memory_cache \<Rightarrow> memory_cache outcome" where
  "removeAssociation m c =
     (case sm_get (overlays c) (key m) of
        Some existing \<Rightarrow>
          (case map_get (overlayByBatchId c) (largestBatchId existing) of
             Obj keys \<Rightarrow>
               (None, c\<lparr>overlayByBatchId :=
                  AList.update (largestBatchId existing) (set_delete (key m) keys)
                    (overlayByBatchId c)\<rparr>)
           | _ \<Rightarrow> (Some TypeError, c))
      | None \<Rightarrow> (None, c))"

text \<open>
  Lines 59 to 64: the bucket of \<open>largestBatchId\<close> is created when
  \<open>this.overlayByBatchId.get(largestBatchId) === null\<close>, then the key is added to the
  result of a second \<open>get\<close>, which throws when that is \<open>undefined\<close>.
\<close>

definition createAssociation :: "int \<Rightarrow> mutation \<Rightarrow> memory_cache \<Rightarrow> memory_cache outcome" where
  "createAssociation b m c =
     (let c1 = (if map_get (overlayByBatchId c) b = Null
                then c\<lparr>overlayByBatchId := AList.update b [] (overlayByBatchId c)\<rparr>
                else c)
      in case map_get (overlayByBatchId c1) b of
           Obj keys \<Rightarrow>
             (None, c1\<lparr>overlayByBatchId :=
                AList.update b (set_add (key m) keys) (overlayByBatchId c1)\<rparr>)
         | _ \<Rightarrow> (Some TypeError, c1))"

definition saveOverlay :: "int \<Rightarrow> mutation option \<Rightarrow> memory_cache \<Rightarrow> memory_cache outcome" where
  "saveOverlay b mo c =
     (case mo of
        None \<Rightarrow> (None, c)
      | Some m \<Rightarrow>
          (case removeAssociation m c of
             (Some e, c1) \<Rightarrow> (Some e, c1)
           | (None, c1) \<Rightarrow>
               createAssociation b m
                 (c1\<lparr>overlays :=
                    sm_insert (key m) \<lparr>largestBatchId = b, mutation = m\<rparr> (overlays c1)\<rparr>)))"

text \<open>\<open>saveOverlays\<close>: \<open>forEach\<close> over the entries of the argument map, in its insertion
  order; a throw ends the loop.\<close>

fun saveOverlays ::
  "int \<Rightarrow> (document_key \<times> mutation option) list \<Rightarrow> memory_cache \<Rightarrow> memory_cache outcome" where
  "saveOverlays b [] c = (None, c)"
| "saveOverlays b ((k, mo) # rest) c =
     (case saveOverlay b mo c of
        (Some e, c1) \<Rightarrow> (Some e, c1)
      | (None, c1) \<Rightarrow> saveOverlays b rest c1)"





text \<open>
  A result of type \<open>Map<DocumentKey, Overlay>\<close> is an association list in insertion
  order.
\<close>

type_synonym overlay_map = "(document_key \<times> overlay) list"

text \<open>
  \<open>getOverlaysForCollection\<close>: the loop over the iterator that starts at the key
  \<open>collection.child('')\<close>; \<open>break\<close> at the first key that \<open>collection\<close> is not a prefix
  of, \<open>continue\<close> on a key of another length.
\<close>

fun collectionLoop ::
  "resource_path \<Rightarrow> int \<Rightarrow> (document_key \<times> overlay) list \<Rightarrow> overlay_map \<Rightarrow> overlay_map" where
  "collectionLoop collection sinceBatchId [] res = res"
| "collectionLoop collection sinceBatchId (entry # iter) res =
     (if \<not> isPrefixOf collection (getKey (snd entry)) then res
      else if length (getKey (snd entry)) \<noteq> length collection + 1
        then collectionLoop collection sinceBatchId iter res
      else if largestBatchId (snd entry) > sinceBatchId
        then collectionLoop collection sinceBatchId iter
               (AList.update (getKey (snd entry)) (snd entry) res)
      else collectionLoop collection sinceBatchId iter res)"

definition getOverlaysForCollection :: "resource_path \<Rightarrow> int \<Rightarrow> memory_cache \<Rightarrow> overlay_map" where
  "getOverlaysForCollection collection sinceBatchId c =
     collectionLoop collection sinceBatchId
       (getIteratorFrom (child collection []) (overlays c)) []"




section \<open>The persistent overlay cache\<close>

text \<open>
  Modelled from the spec: the persisted layout and the indexed store (indexeddb_schema.ts,
  local_serializer.ts, simple_db.ts and encoded_resource_path.ts are not among the sources).
  An overlay record holds the user id, the document path, the collection path of the
  document, its collection group, the largest batch id and the mutation; the serializer
  round-trips the mutation without loss, so the record holds the mutation itself, and the
  path encoding is injective, so the record holds the paths themselves.  The record is
  stored under the primary key \<open>(userId, documentPath)\<close> and a \<open>put\<close> overwrites the
  record of the same key.  The document path is read from \<open>overlay.getKey()\<close>, that is
  \<open>overlay.mutation.key\<close>, which throws \<open>TypeError\<close> when the mutation is \<open>null\<close>.
\<close>

record db_document_overlay =
  userId :: string
  documentPath :: resource_path
  collectionPath :: resource_path
  collectionGroup :: "string option"
  dbLargestBatchId :: int
  overlayMutation :: mutation

type_synonym db_key = "string \<times> resource_path"
type_synonym overlay_store = "(db_key \<times> db_document_overlay) list"

definition encodeResourcePath :: "resource_path \<Rightarrow> resource_path" where
  "encodeResourcePath p = p"

definition toDbDocumentOverlayKey :: "string \<Rightarrow> document_key \<Rightarrow> db_key" where
  "toDbDocumentOverlayKey uid k = (uid, encodeResourcePath k)"

definition toDbDocumentOverlay ::
  "string \<Rightarrow> int \<Rightarrow> mutation option \<Rightarrow> error + db_document_overlay" where
  "toDbDocumentOverlay uid b mo =
     (case mo of
        None \<Rightarrow> Inl TypeError
      | Some m \<Rightarrow>
          Inr \<lparr>userId = uid,
               documentPath = encodeResourcePath (key m),
               collectionPath = encodeResourcePath (butlast (key m)),
               collectionGroup = getCollectionGroup (key m),
               dbLargestBatchId = b,
               overlayMutation = m\<rparr>)"

definition fromDbDocumentOverlay :: "db_document_overlay \<Rightarrow> overlay" where
  "fromDbDocumentOverlay row =
     \<lparr>largestBatchId = dbLargestBatchId row, mutation = overlayMutation row\<rparr>"

definition primaryKey :: "db_document_overlay \<Rightarrow> db_key" where
  "primaryKey row = (userId row, documentPath row)"

definition put :: "db_document_overlay \<Rightarrow> overlay_store \<Rightarrow> overlay_store" where
  "put row st = sm_insert (primaryKey row) row st"

text \<open>
  A number in an index key, or the bound \<open>Number.POSITIVE_INFINITY\<close> of a key range.
\<close>

datatype idb_number = Num int | PositiveInfinity

instantiation idb_number :: linorder
begin

fun less_eq_idb_number :: "idb_number \<Rightarrow> idb_number \<Rightarrow> bool" where
  "less_eq_idb_number (Num a) (Num b) = (a \<le> b)"
| "less_eq_idb_number x PositiveInfinity = True"
| "less_eq_idb_number PositiveInfinity (Num b) = False"

definition less_idb_number :: "idb_number \<Rightarrow> idb_number \<Rightarrow> bool" where
  "less_idb_number x y = (x \<le> y \<and> \<not> y \<le> x)"

instance
proof
  fix x y z :: idb_number
  show "(x < y) = (x \<le> y \<and> \<not> y \<le> x)" by (simp add: less_idb_number_def)
  show "x \<le> x" by (cases x) simp_all
  show "x \<le> y \<Longrightarrow> y \<le> z \<Longrightarrow> x \<le> z" by (cases x; cases y; cases z) simp_all
  show "x \<le> y \<Longrightarrow> y \<le> x \<Longrightarrow> x = y" by (cases x; cases y) simp_all
  show "x \<le> y \<or> y \<le> x" by (cases x; cases y) auto
qed

end

text \<open>
  \<open>IDBKeyRange.bound(lower, upper, lowerOpen, upperOpen)\<close>.  Array keys compare element by
  element, which is the order of tuples here.
\<close>

definition bound :: "'i::linorder \<Rightarrow> 'i \<Rightarrow> bool \<Rightarrow> bool \<Rightarrow> 'i \<Rightarrow> bool" where
  "bound lower upper lowerOpen upperOpen x =
     ((if lowerOpen then lower < x else lower \<le> x) \<and>
      (if upperOpen then x < upper else x \<le> upper))"


definition collectionPathOverlayIndex ::
  "db_document_overlay \<Rightarrow> (string \<times> resource_path \<times> idb_number) option" where
  "collectionPathOverlayIndex row =
     Some (userId row, collectionPath row, Num (dbLargestBatchId row))"


text \<open>The records of a range of an index, in the order of the index: ascending index key,
  records of equal index key in the order of their primary keys.\<close>

definition inRange :: "('r \<Rightarrow> 'i option) \<Rightarrow> ('i \<Rightarrow> bool) \<Rightarrow> 'r \<Rightarrow> bool" where
  "inRange index rng row = (case index row of None \<Rightarrow> False | Some i \<Rightarrow> rng i)"

definition loadAll ::
  "(db_document_overlay \<Rightarrow> 'i::linorder option) \<Rightarrow> ('i \<Rightarrow> bool) \<Rightarrow> overlay_store
     \<Rightarrow> db_document_overlay list" where
  "loadAll index rng st = sort_key index (filter (inRange index rng) (map snd st))"


definition idb_getOverlay :: "string \<Rightarrow> overlay_store \<Rightarrow> document_key \<Rightarrow> overlay option" where
  "idb_getOverlay uid st k =
     (case sm_get st (toDbDocumentOverlayKey uid k) of
        Some dbOverlay \<Rightarrow> Some (fromDbDocumentOverlay dbOverlay)
      | None \<Rightarrow> None)"

definition idb_saveOverlay ::
  "string \<Rightarrow> int \<Rightarrow> mutation option \<Rightarrow> overlay_store \<Rightarrow> overlay_store outcome" where
  "idb_saveOverlay uid b mo st =
     (case toDbDocumentOverlay uid b mo of
        Inl e \<Rightarrow> (Some e, st)
      | Inr row \<Rightarrow> (None, put row st))"

fun idb_saveOverlays ::
  "string \<Rightarrow> int \<Rightarrow> (document_key \<times> mutation option) list \<Rightarrow> overlay_store
     \<Rightarrow> overlay_store outcome" where
  "idb_saveOverlays uid b [] st = (None, st)"
| "idb_saveOverlays uid b ((k, mo) # rest) st =
     (case idb_saveOverlay uid b mo st of
        (Some e, st1) \<Rightarrow> (Some e, st1)
      | (None, st1) \<Rightarrow> idb_saveOverlays uid b rest st1)"


definition idb_getOverlaysForCollection ::
  "string \<Rightarrow> resource_path \<Rightarrow> int \<Rightarrow> overlay_store \<Rightarrow> overlay_map" where
  "idb_getOverlaysForCollection uid collection sinceBatchId st =
     fold (\<lambda>dbOverlay res.
             AList.update (getKey (fromDbDocumentOverlay dbOverlay))
               (fromDbDocumentOverlay dbOverlay) res)
       (loadAll collectionPathOverlayIndex
          (bound (uid, encodeResourcePath collection, Num sinceBatchId)
                 (uid, encodeResourcePath collection, PositiveInfinity) True False) st)
       []"



section \<open>The local documents view\<close>

text \<open>
  Modelled from the spec: a document (model/document.ts is not among the sources) has the
  key it is stored under; the remote document cache answers an absent key with an invalid
  document.  The contents of a document are a number here.  A \<open>FieldMask\<close> is a list of
  field paths, or \<open>null\<close>.
\<close>

datatype document =
    InvalidDocument (docKey: document_key)
  | FoundDocument (docKey: document_key) (docData: nat)
  | NoDocument (docKey: document_key)

definition newInvalidDocument :: "document_key \<Rightarrow> document" where
  "newInvalidDocument k = InvalidDocument k"

type_synonym field_mask = "string list option"

type_synonym document_map = "(document_key \<times> document) list"

text \<open>Modelled from the spec: a mutation batch exposes its batch id and the keys of its
  mutations.\<close>

record mutation_batch =
  batchId :: int
  mutations :: "mutation list"

definition batch_keys :: "mutation_batch \<Rightarrow> document_key list" where
  "batch_keys batch = remdups (map key (mutations batch))"

text \<open>
  The collaborators of the view whose code is not among the sources are parameters: the
  entries of the remote document cache, the batches of the mutation queue in ascending
  batch id, \<open>mutationApplyToLocalView\<close>, \<open>MutationBatch.applyToLocalViewWithFieldMask\<close>
  (the document after the call and the mask returned, for a document or \<open>null\<close>),
  \<open>calculateOverlayMutation\<close> and the value of \<open>Timestamp.now()\<close>.
\<close>

record collaborators =
  remoteEntry :: "document_key \<Rightarrow> document"
  mutationQueue :: "mutation_batch list"
  mutationApplyToLocalView :: "mutation \<Rightarrow> document \<Rightarrow> nat \<Rightarrow> document"
  applyToLocalViewWithFieldMask ::
    "mutation_batch \<Rightarrow> document option \<Rightarrow> field_mask \<Rightarrow> document option \<times> field_mask"
  calculateOverlayMutation :: "document option \<Rightarrow> field_mask \<Rightarrow> mutation option"
  timestampNow :: nat

text \<open>\<open>getBaseDocument\<close> returns the base document and the keys read from the remote
  document cache.\<close>

definition getBaseDocument ::
  "collaborators \<Rightarrow> document_key \<Rightarrow> overlay option \<Rightarrow> document \<times> document_key list" where
  "getBaseDocument env k ov =
     (if (case ov of None \<Rightarrow> True | Some x \<Rightarrow> isPatchMutation (mutation x))
      then (remoteEntry env k, [k])
      else (newInvalidDocument k, []))"

definition getDocument ::
  "collaborators \<Rightarrow> string \<Rightarrow> overlay_store \<Rightarrow> document_key \<Rightarrow> document \<times> document_key list" where
  "getDocument env uid st k =
     (let ov = idb_getOverlay uid st k;
          base = getBaseDocument env k ov
      in (case ov of
            Some x \<Rightarrow> mutationApplyToLocalView env (mutation x) (fst base) (timestampNow env)
          | None \<Rightarrow> fst base,
          snd base))"

text \<open>Modelled from the spec: the mutation queue returns every batch that affects one of
  the given keys, in ascending batch id.\<close>

definition getAllMutationBatchesAffectingDocumentKeys ::
  "collaborators \<Rightarrow> document_map \<Rightarrow> mutation_batch list" where
  "getAllMutationBatchesAffectingDocumentKeys env dm =
     filter (\<lambda>batch. list_ex (\<lambda>k. map_has dm k) (batch_keys batch)) (mutationQueue env)"

text \<open>
  \<open>recalculateAndSaveOverlays\<close>, first continuation: the state of the loop over the
  batches and their keys is the document map (its documents are mutated in place), the
  masks and \<open>documentsByBatchId\<close>.
\<close>

type_synonym recalc_state =
  "document_map \<times> (document_key \<times> field_mask) list \<times> (int \<times> document_key list) list"

definition applyBatchToKey ::
  "collaborators \<Rightarrow> mutation_batch \<Rightarrow> document_key \<Rightarrow> recalc_state \<Rightarrow> recalc_state" where
  "applyBatchToKey env batch k s =
     (case s of (dm, masks, documentsByBatchId) \<Rightarrow>
        (let mask = (case map_get masks k of Obj mk \<Rightarrow> mk | _ \<Rightarrow> Some []);
             r = applyToLocalViewWithFieldMask env batch (sm_get dm k) mask
         in ((case (sm_get dm k, fst r) of
                (Some d, Some d') \<Rightarrow> AList.update k d' dm
              | _ \<Rightarrow> dm),
             AList.update k (snd r) masks,
             sm_insert (batchId batch)
               (set_add k (case sm_get documentsByBatchId (batchId batch) of
                             None \<Rightarrow> [] | Some ks \<Rightarrow> ks))
               documentsByBatchId)))"

definition applyBatch :: "collaborators \<Rightarrow> mutation_batch \<Rightarrow> recalc_state \<Rightarrow> recalc_state" where
  "applyBatch env batch s = fold (applyBatchToKey env batch) (batch_keys batch) s"

text \<open>Second continuation: the keys of one batch id that are not yet processed are staged
  with their overlay mutation.\<close>

fun stageKeys ::
  "collaborators \<Rightarrow> document_map \<Rightarrow> (document_key \<times> field_mask) list \<Rightarrow> document_key list
     \<Rightarrow> document_key list \<Rightarrow> (document_key \<times> mutation option) list
     \<Rightarrow> (document_key \<times> mutation option) list \<times> document_key list" where
  "stageKeys env dm masks [] processed ovs = (ovs, processed)"
| "stageKeys env dm masks (k # ks) processed ovs =
     (if k \<notin> set processed
      then stageKeys env dm masks ks (set_add k processed)
             (AList.update k
                (calculateOverlayMutation env (sm_get dm k)
                   (case map_get masks k of Obj mk \<Rightarrow> mk | _ \<Rightarrow> None))
                ovs)
      else stageKeys env dm masks ks processed ovs)"

text \<open>The loop over the reverse iterator of \<open>documentsByBatchId\<close>.  Its state is the
  store and the list of the calls of \<open>saveOverlays\<close> made so far.\<close>

type_synonym save_call = "int \<times> (document_key \<times> mutation option) list"

fun saveLoop ::
  "collaborators \<Rightarrow> string \<Rightarrow> document_map \<Rightarrow> (document_key \<times> field_mask) list
     \<Rightarrow> (int \<times> document_key list) list \<Rightarrow> document_key list
     \<Rightarrow> overlay_store \<times> save_call list \<Rightarrow> (overlay_store \<times> save_call list) outcome" where
  "saveLoop env uid dm masks [] processed s = (None, s)"
| "saveLoop env uid dm masks (entry # iter) processed s =
     (case stageKeys env dm masks (snd entry) processed [] of
        (ovs, processed1) \<Rightarrow>
          (case idb_saveOverlays uid (fst entry) ovs (fst s) of
             (Some e, st1) \<Rightarrow> (Some e, (st1, snd s @ [(fst entry, ovs)]))
           | (None, st1) \<Rightarrow>
               saveLoop env uid dm masks iter processed1 (st1, snd s @ [(fst entry, ovs)])))"

text \<open>The result of \<open>recalculateAndSaveOverlays\<close>: the error, if any, the store, the calls
  of \<open>saveOverlays\<close>, and the documents after the batches were applied to them.\<close>

record recalculated =
  recalcError :: "error option"
  recalcStore :: overlay_store
  recalcCalls :: "save_call list"
  recalcDocs :: document_map

definition recalculateAndSaveOverlays ::
  "collaborators \<Rightarrow> string \<Rightarrow> document_map \<Rightarrow> overlay_store \<Rightarrow> recalculated" where
  "recalculateAndSaveOverlays env uid dm st =
     (case fold (applyBatch env) (getAllMutationBatchesAffectingDocumentKeys env dm) (dm, [], []) of
        (dm1, masks, documentsByBatchId) \<Rightarrow>
          (case saveLoop env uid dm1 masks (getReverseIterator documentsByBatchId) [] (st, []) of
             (e, st1, calls) \<Rightarrow>
               \<lparr>recalcError = e, recalcStore = st1, recalcCalls = calls, recalcDocs = dm1\<rparr>))"

text \<open>
  \<open>computeViews\<close>, the pass over the documents: the state is the documents seen so far
  (an overlay is applied to its document in place) and \<open>recalculateDocuments\<close>.
\<close>

fun computeViewsLoop ::
  "collaborators \<Rightarrow> string \<Rightarrow> overlay_store \<Rightarrow> overlay_map \<Rightarrow> document_key list
     \<Rightarrow> document_map \<Rightarrow> document_map \<times> document_map \<Rightarrow> document_map \<times> document_map" where
  "computeViewsLoop env uid st memoizedOverlays existenceStateChanged [] s = s"
| "computeViewsLoop env uid st memoizedOverlays existenceStateChanged (entry # rest) s =
     (let doc = snd entry;
          ov = (if map_has memoizedOverlays (docKey doc)
                then map_of memoizedOverlays (docKey doc)
                else idb_getOverlay uid st (docKey doc))
      in computeViewsLoop env uid st memoizedOverlays existenceStateChanged rest
           (if docKey doc \<in> set existenceStateChanged \<and>
               (case ov of None \<Rightarrow> True | Some x \<Rightarrow> isPatchMutation (mutation x))
            then (fst s @ [entry], sm_insert (docKey doc) doc (snd s))
            else (case ov of
                    Some x \<Rightarrow>
                      (fst s @ [(fst entry,
                          mutationApplyToLocalView env (mutation x) doc (timestampNow env))],
                       snd s)
                  | None \<Rightarrow> (fst s @ [entry], snd s))))"

text \<open>The result of \<open>computeViews\<close>: the error, if any, the result map, the store, the
  documents marked for recalculation and the calls of \<open>saveOverlays\<close>.  The documents
  marked for recalculation are objects of \<open>docs\<close>, so what the batches did to them shows
  in the result.\<close>

record computed_views =
  viewError :: "error option"
  viewResults :: document_map
  viewStore :: overlay_store
  viewRecalculateDocuments :: document_map
  viewCalls :: "save_call list"

definition computeViews ::
  "collaborators \<Rightarrow> string \<Rightarrow> document_map \<Rightarrow> overlay_map \<Rightarrow> document_key list
     \<Rightarrow> overlay_store \<Rightarrow> computed_views" where
  "computeViews env uid dm memoizedOverlays existenceStateChanged st =
     (case computeViewsLoop env uid st memoizedOverlays existenceStateChanged dm ([], []) of
        (dm1, recalculateDocuments) \<Rightarrow>
          (let r = recalculateAndSaveOverlays env uid recalculateDocuments st;
               dm2 = map (\<lambda>e. (fst e, case sm_get (recalcDocs r) (docKey (snd e)) of
                                         Some d \<Rightarrow> d | None \<Rightarrow> snd e)) dm1
           in \<lparr>viewError = recalcError r,
               viewResults = (if recalcError r = None
                              then fold (\<lambda>e res. sm_insert (fst e) (snd e) res) dm2 []
                              else []),
               viewStore = recalcStore r,
               viewRecalculateDocuments = recalculateDocuments,
               viewCalls = recalcCalls r\<rparr>))"

definition getLocalViewOfDocuments ::
  "collaborators \<Rightarrow> string \<Rightarrow> document_map \<Rightarrow> document_key list \<Rightarrow> overlay_store
     \<Rightarrow> computed_views" where
  "getLocalViewOfDocuments env uid dm existenceStateChanged st =
     computeViews env uid dm [] existenceStateChanged st"

text \<open>Modelled from the spec: \<open>getEntries\<close> of the remote document cache returns the map of
  the given keys to their entries.\<close>

definition getEntries :: "collaborators \<Rightarrow> document_key list \<Rightarrow> document_map" where
  "getEntries env ks = fold (\<lambda>k dm. sm_insert k (remoteEntry env k) dm) ks []"

definition getDocuments ::
  "collaborators \<Rightarrow> string \<Rightarrow> document_key list \<Rightarrow> overlay_store \<Rightarrow> computed_views" where
  "getDocuments env uid ks st = getLocalViewOfDocuments env uid (getEntries env ks) [] st"

section \<open>Well-formed states and what the claims speak of\<close>

text \<open>
  The forward map of a well-formed in-memory cache is in ascending key order and stores each
  overlay under the key of its mutation.
\<close>

definition cache_wf :: "memory_cache \<Rightarrow> bool" where
  "cache_wf c =
     (sorted_wrt (<) (map fst (overlays c)) \<and>
      (\<forall>e \<in> set (overlays c). getKey (snd e) = fst e))"

text \<open>
  The records of a well-formed store are in ascending order of their primary keys, each
  is stored under its primary key and is the record that \<open>toDbDocumentOverlay\<close> writes for
  its mutation, and no document path is empty.
\<close>

definition row_wf :: "db_document_overlay \<Rightarrow> bool" where
  "row_wf row =
     (toDbDocumentOverlay (userId row) (dbLargestBatchId row) (Some (overlayMutation row)) =
        Inr row \<and>
      documentPath row \<noteq> [])"

definition store_wf :: "overlay_store \<Rightarrow> bool" where
  "store_wf st =
     (sorted_wrt (<) (map fst st) \<and>
      (\<forall>e \<in> set st. fst e = primaryKey (snd e) \<and> row_wf (snd e)))"

text \<open>The overlays that the store holds for a user, by key.\<close>

definition idb_overlays :: "string \<Rightarrow> overlay_store \<Rightarrow> overlay_map" where
  "idb_overlays uid st =
     map (\<lambda>e. (documentPath (snd e), fromDbDocumentOverlay (snd e)))
       (filter (\<lambda>e. userId (snd e) = uid) st)"

text \<open>A key is an immediate child of a collection when the collection is a prefix of its
  path and the path has one segment more.\<close>

definition immediateChild :: "resource_path \<Rightarrow> document_key \<Rightarrow> bool" where
  "immediateChild collection k = (isPrefixOf collection k \<and> length k = length collection + 1)"

text \<open>
  What \<open>getOverlaysForCollectionGroup\<close> is to return, in the words of the spec.  An entry
  matches when its key is of the collection group and its batch id is above
  \<open>sinceBatchId\<close>.  The result takes the batches of matching entries whole and in
  ascending batch id, and a batch is taken while the batches below it hold fewer than
  \<open>count\<close> matching entries: an entry is in the result exactly when it matches and fewer
  than \<open>count\<close> matching entries have a smaller batch id.
\<close>

definition matches :: "string \<Rightarrow> int \<Rightarrow> document_key \<times> overlay \<Rightarrow> bool" where
  "matches cg sinceBatchId e =
     (getCollectionGroup (fst e) = Some cg \<and> sinceBatchId < largestBatchId (snd e))"

definition below :: "string \<Rightarrow> int \<Rightarrow> overlay_map \<Rightarrow> int \<Rightarrow> nat" where
  "below cg sinceBatchId stored b =
     length (filter (\<lambda>e. matches cg sinceBatchId e \<and> largestBatchId (snd e) < b) stored)"

definition whole_batches :: "string \<Rightarrow> int \<Rightarrow> int \<Rightarrow> overlay_map \<Rightarrow> overlay_map \<Rightarrow> bool" where
  "whole_batches cg sinceBatchId n stored res =
     (distinct (map fst res) \<and>
      sorted (map (\<lambda>e. largestBatchId (snd e)) res) \<and>
      (\<forall>e. (e \<in> set res) =
            (e \<in> set stored \<and> matches cg sinceBatchId e \<and>
             int (below cg sinceBatchId stored (largestBatchId (snd e))) < n)))"

text \<open>The entries of the buckets of \<open>batchIdToOverlays\<close>, bucket after bucket.\<close>

definition entries_of :: "(int \<times> overlay_map) list \<Rightarrow> overlay_map" where
  "entries_of G = concat (map snd G)"





section \<open>Example states\<close>

definition alice :: document_key where
  "alice = [''users'', ''alice'']"

definition bob :: document_key where
  "bob = [''users'', ''bob'']"

definition n1 :: document_key where
  "n1 = [''users'', ''alice'', ''notes'', ''n1'']"

definition example_cache :: memory_cache where
  "example_cache =
     \<lparr>overlays =
        [(alice, \<lparr>largestBatchId = 3, mutation = SetMutation alice 1\<rparr>),
         (n1, \<lparr>largestBatchId = 4, mutation = PatchMutation n1 2\<rparr>),
         (bob, \<lparr>largestBatchId = 5, mutation = SetMutation bob 3\<rparr>)],
      overlayByBatchId = [(3, [alice]), (4, [n1]), (5, [bob])]\<rparr>"

definition example_row :: "string \<Rightarrow> int \<Rightarrow> mutation \<Rightarrow> db_document_overlay" where
  "example_row uid b m =
     \<lparr>userId = uid, documentPath = key m, collectionPath = butlast (key m),
      collectionGroup = getCollectionGroup (key m), dbLargestBatchId = b,
      overlayMutation = m\<rparr>"

definition example_store :: overlay_store where
  "example_store =
     [((''u'', alice), example_row ''u'' 3 (SetMutation alice 1)),
      ((''u'', n1), example_row ''u'' 4 (PatchMutation n1 2)),
      ((''u'', bob), example_row ''u'' 5 (SetMutation bob 3))]"



section \<open>Saving into the in-memory cache\<close>

text \<open>
  \<open>Map.get\<close> never returns \<open>null\<close>, so the test of line 60 is never true and no bucket
  is ever created: from the empty cache the inverted index stays empty, and \<open>saveOverlay\<close>
  of a mutation throws.
\<close>

lemma map_get_not_Null: "map_get m k \<noteq> Null"
  by (simp add: map_get_def split: option.split)

lemma createAssociation_absent:
  "map_of (overlayByBatchId c) b = None \<Longrightarrow> createAssociation b m c = (Some TypeError, c)"
  by (simp add: createAssociation_def map_get_not_Null Let_def) (simp add: map_get_def)

lemma createAssociation_index:
  "overlayByBatchId c = [] \<Longrightarrow> createAssociation b m c = (Some TypeError, c)"
  by (simp add: createAssociation_absent)

lemma saveOverlay_index:
  "overlayByBatchId c = [] \<Longrightarrow> overlayByBatchId (snd (saveOverlay b mo c)) = []"
  by (auto simp: saveOverlay_def removeAssociation_def map_get_def createAssociation_index
      split: option.split prod.split)

lemma saveOverlay_never_returns:
  "overlayByBatchId c = [] \<Longrightarrow> fst (saveOverlay b (Some m) c) = Some TypeError"
  by (auto simp: saveOverlay_def removeAssociation_def map_get_def createAssociation_index
      split: option.split prod.split)

text \<open>
  Claim C3, in-memory half, at the failing input.  \<open>saveOverlays(5, {users/alice: m})\<close> on
  the empty in-memory cache does not succeed, it throws \<open>TypeError\<close>; and when the key has
  an overlay of batch 3 already, the call throws before the overlay is replaced, so
  \<open>getOverlay\<close> still returns the overlay of batch 3.
\<close>

theorem saveOverlays_memory_keeps_prior:
  "fst (saveOverlays 5 [([''users'', ''alice''], Some (SetMutation [''users'', ''alice''] 2))]
          empty_cache) = Some TypeError \<and>
   saveOverlays 5 [([''users'', ''alice''], Some (SetMutation [''users'', ''alice''] 2))]
     (snd (saveOverlays 3 [([''users'', ''alice''], Some (SetMutation [''users'', ''alice''] 1))]
             empty_cache)) =
     (Some TypeError,
      snd (saveOverlays 3 [([''users'', ''alice''], Some (SetMutation [''users'', ''alice''] 1))]
             empty_cache)) \<and>
   getOverlay
     (snd (saveOverlays 5 [([''users'', ''alice''], Some (SetMutation [''users'', ''alice''] 2))]
        (snd (saveOverlays 3
                [([''users'', ''alice''], Some (SetMutation [''users'', ''alice''] 1))]
                empty_cache))))
     [''users'', ''alice''] =
     Some \<lparr>largestBatchId = 3, mutation = SetMutation [''users'', ''alice''] 1\<rparr>"
  by (simp add: saveOverlay_def removeAssociation_def createAssociation_def empty_cache_def
      sm_get_def map_get_def getOverlay_def)


section \<open>Absent mutations in the persistent cache\<close>

text \<open>
  Claim C8, persistent half, at the failing input.  \<open>saveOverlays\<close> of the persistent
  cache has no test for \<open>null\<close>: the entry of users/alice with an absent mutation is not
  skipped, the call throws at it, and the overlay of users/bob that follows it in the map is
  not saved, although it is saved when the absent entry is left out.
\<close>

theorem idb_saveOverlays_null_not_skipped:
  "idb_saveOverlays ''u'' 5
     [([''users'', ''alice''], None),
      ([''users'', ''bob''], Some (SetMutation [''users'', ''bob''] 1))] [] =
     (Some TypeError, []) \<and>
   idb_getOverlay ''u''
     (snd (idb_saveOverlays ''u'' 5
        [([''users'', ''alice''], None),
         ([''users'', ''bob''], Some (SetMutation [''users'', ''bob''] 1))] []))
     [''users'', ''bob''] = None \<and>
   idb_getOverlay ''u''
     (snd (idb_saveOverlays ''u'' 5
        [([''users'', ''bob''], Some (SetMutation [''users'', ''bob''] 1))] []))
     [''users'', ''bob''] =
     Some \<lparr>largestBatchId = 5, mutation = SetMutation [''users'', ''bob''] 1\<rparr>"
  by (simp add: idb_saveOverlay_def toDbDocumentOverlay_def idb_getOverlay_def sm_get_def
      put_def primaryKey_def toDbDocumentOverlayKey_def encodeResourcePath_def
      fromDbDocumentOverlay_def)

section \<open>Point reads of the local documents view\<close>

text \<open>
  Claim C7.  \<open>getDocument(k)\<close>: when the overlay of \<open>k\<close> is absent the result is the entry
  of the remote document cache, which is read; when the overlay is a patch mutation the
  result is the mutation applied to that entry at the current timestamp; otherwise the
  result is the mutation applied to a fresh invalid document of \<open>k\<close> at the current
  timestamp, and the remote document cache is not read.
\<close>

theorem getDocument_base:
  "getDocument env uid st k =
     (case idb_getOverlay uid st k of
        None \<Rightarrow> (remoteEntry env k, [k])
      | Some ov \<Rightarrow>
          if isPatchMutation (mutation ov)
          then (mutationApplyToLocalView env (mutation ov) (remoteEntry env k)
                  (timestampNow env), [k])
          else (mutationApplyToLocalView env (mutation ov) (newInvalidDocument k)
                  (timestampNow env), []))"
  by (simp add: getDocument_def getBaseDocument_def Let_def split: option.split)

section \<open>Reads of the local documents view leave the overlay cache alone\<close>

lemma computeViewsLoop_unchanged:
  "snd (computeViewsLoop env uid st memo [] dm s) = snd s"
  by (induction dm arbitrary: s) (simp_all add: Let_def split: option.split)

lemma no_batches_for_no_documents:
  "getAllMutationBatchesAffectingDocumentKeys env [] = []"
  by (simp add: getAllMutationBatchesAffectingDocumentKeys_def map_has_def list_ex_iff)

lemma recalculate_nothing:
  "recalculateAndSaveOverlays env uid [] st =
     \<lparr>recalcError = None, recalcStore = st, recalcCalls = [], recalcDocs = []\<rparr>"
  by (simp add: recalculateAndSaveOverlays_def no_batches_for_no_documents
      getReverseIterator_def)

lemma computeViews_frame:
  "viewRecalculateDocuments (computeViews env uid dm [] [] st) = [] \<and>
   viewCalls (computeViews env uid dm [] [] st) = [] \<and>
   viewStore (computeViews env uid dm [] [] st) = st \<and>
   viewError (computeViews env uid dm [] [] st) = None"
proof -
  obtain dm1 rd where loop: "computeViewsLoop env uid st [] [] dm ([], []) = (dm1, rd)"
    by (cases "computeViewsLoop env uid st [] [] dm ([], [])") auto
  have "rd = snd (computeViewsLoop env uid st [] [] dm ([], []))"
    by (simp add: loop)
  then have "rd = []"
    by (simp add: computeViewsLoop_unchanged)
  with loop show ?thesis
    by (simp add: computeViews_def recalculate_nothing Let_def)
qed

text \<open>
  Claim C10.  For every document map and every key set, \<open>getLocalViewOfDocuments\<close> with an
  empty \<open>existenceStateChanged\<close> and \<open>getDocuments\<close> mark no document for recalculation,
  make no call of \<open>saveOverlays\<close>, return without error and leave the store of the overlay
  cache as it was; \<open>recalculateAndSaveOverlays\<close> of the empty map makes no call either.
\<close>

theorem getDocuments_frame:
  "viewRecalculateDocuments (getLocalViewOfDocuments env uid dm [] st) = [] \<and>
   viewCalls (getLocalViewOfDocuments env uid dm [] st) = [] \<and>
   viewStore (getLocalViewOfDocuments env uid dm [] st) = st \<and>
   viewError (getLocalViewOfDocuments env uid dm [] st) = None \<and>
   viewRecalculateDocuments (getDocuments env uid ks st) = [] \<and>
   viewCalls (getDocuments env uid ks st) = [] \<and>
   viewStore (getDocuments env uid ks st) = st \<and>
   viewError (getDocuments env uid ks st) = None \<and>
   recalculateAndSaveOverlays env uid [] st =
     \<lparr>recalcError = None, recalcStore = st, recalcCalls = [], recalcDocs = []\<rparr>"
  by (simp add: getLocalViewOfDocuments_def getDocuments_def computeViews_frame
      recalculate_nothing)

section \<open>The sorted map\<close>

lemma map_of_sm_insert: "map_of (sm_insert k v m) = (map_of m)(k \<mapsto> v)"
  by (induction m) (auto simp: fun_upd_twist)






lemma sorted_keys_distinct: "sorted_wrt (<) (map fst m) \<Longrightarrow> distinct (map fst (m::('k::linorder \<times> 'v) list))"
  by (simp add: strict_sorted_iff)

lemma sorted_map_of_iff:
  "sorted_wrt (<) (map fst (m::('k::linorder \<times> 'v) list)) \<Longrightarrow>
   ((k, v) \<in> set m) = (map_of m k = Some v)"
  using map_of_eq_Some_iff [OF sorted_keys_distinct, of m k v] by simp


lemmas example_defs =
  alice_def bob_def n1_def example_cache_def example_row_def example_store_def

lemma example_cache_wf: "cache_wf example_cache"
  by (simp add: cache_wf_def example_defs getKey_def)


lemma example_store_wf: "store_wf example_store"
  by (simp add: store_wf_def row_wf_def primaryKey_def toDbDocumentOverlay_def
      encodeResourcePath_def example_defs)

section \<open>Removing the overlays of a batch\<close>



lemma Num_less [simp]: "(Num a < Num b) = (a < b)" by (auto simp: less_idb_number_def)
lemma Num_less_inf [simp]: "Num a < PositiveInfinity" by (simp add: less_idb_number_def)


lemma store_lookup:
  assumes "store_wf st" "sm_get st (uid, k) = Some row"
  shows "userId row = uid \<and> documentPath row = k \<and> row_wf row"
proof -
  from assms(2) have "((uid, k), row) \<in> set st"
    by (simp add: sm_get_def map_of_SomeD)
  with assms(1) show ?thesis
    by (fastforce simp: store_wf_def primaryKey_def)
qed





section \<open>The overlays of a collection\<close>



lemma update_fresh: "k \<notin> fst ` set res \<Longrightarrow> AList.update k v res = res @ [(k, v)]"
  by (induction res) auto

lemma fold_update_fresh:
  "distinct (map fst res @ map f xs) \<Longrightarrow>
   fold (\<lambda>e r. AList.update (f e) (g e) r) xs res = res @ map (\<lambda>e. (f e, g e)) xs"
proof (induction xs arbitrary: res)
  case Nil
  then show ?case by simp
next
  case (Cons x xs)
  have fresh: "f x \<notin> fst ` set res"
    using Cons.prems by auto
  have "distinct (map fst (res @ [(f x, g x)]) @ map f xs)"
    using Cons.prems by auto
  from Cons.IH [OF this] show ?case
    by (simp add: update_fresh [OF fresh])
qed

lemma collectionLoop_fold:
  "collectionLoop col s it res =
     fold (\<lambda>e r. AList.update (getKey (snd e)) (snd e) r)
       (filter (\<lambda>e. length (getKey (snd e)) = length col + 1 \<and> s < largestBatchId (snd e))
          (takeWhile (\<lambda>e. isPrefixOf col (getKey (snd e))) it))
       res"
  by (induction it arbitrary: res) auto

lemma isPrefixOf_Nil [simp]: "isPrefixOf [] p"
  by (simp add: isPrefixOf_def)

lemma isPrefixOf_Cons_Nil [simp]: "\<not> isPrefixOf (x # c) []"
  by (simp add: isPrefixOf_def)

lemma isPrefixOf_Cons [simp]: "isPrefixOf (x # c) (y # p) = (x = y \<and> isPrefixOf c p)"
  by (auto simp: isPrefixOf_def)

lemma Nil_less_iff: "([] < a) = (a \<noteq> [])"
  by (cases a) simp_all

lemma child_le_immediate:
  "immediateChild col k \<Longrightarrow> child col [] \<le> k"
proof (induction col arbitrary: k)
  case Nil
  then show ?case by (cases k) (auto simp: immediateChild_def child_def Nil_less_iff)
next
  case (Cons x c)
  then show ?case by (cases k) (auto simp: immediateChild_def child_def)
qed

lemma prefix_convex:
  "child col [] \<le> k \<Longrightarrow> k \<le> k' \<Longrightarrow> isPrefixOf col k' \<Longrightarrow> isPrefixOf col k"
proof (induction col arbitrary: k k')
  case Nil
  then show ?case by simp
next
  case (Cons x c)
  then show ?case
    by (cases k; cases k') (auto simp: child_def)
qed

lemma filter_dropWhile_irrelevant:
  "(\<And>e. e \<in> set xs \<Longrightarrow> D e \<Longrightarrow> \<not> R e) \<Longrightarrow> filter R (dropWhile D xs) = filter R xs"
  by (induction xs) auto

lemma takeWhile_filter_sorted:
  "sorted_wrt R xs \<Longrightarrow> (\<And>x y. x \<in> set xs \<Longrightarrow> y \<in> set xs \<Longrightarrow> R x y \<Longrightarrow> P y \<Longrightarrow> P x) \<Longrightarrow>
   takeWhile P xs = filter P xs"
proof (induction xs)
  case Nil
  then show ?case by simp
next
  case (Cons x xs)
  show ?case
  proof (cases "P x")
    case True
    then show ?thesis using Cons by auto
  next
    case False
    have "\<And>y. y \<in> set xs \<Longrightarrow> \<not> P y"
      using Cons.prems False by auto
    then have "filter P xs = []" by (simp add: filter_empty_conv)
    with False show ?thesis by simp
  qed
qed

lemma set_dropWhile_sorted:
  "sorted_wrt (<) (map fst m) \<Longrightarrow> e \<in> set (dropWhile (\<lambda>e. fst e < (p::'k::linorder)) m) \<Longrightarrow> p \<le> fst e"
proof (induction m)
  case Nil
  then show ?case by simp
next
  case (Cons x m)
  then show ?case by (fastforce split: if_splits)
qed

lemma sorted_dropWhile:
  "sorted_wrt R xs \<Longrightarrow> sorted_wrt R (dropWhile D xs)"
  by (induction xs) auto

lemma getOverlaysForCollection_filter:
  assumes "cache_wf c"
  shows "getOverlaysForCollection col s c =
     filter (\<lambda>e. immediateChild col (fst e) \<and> s < largestBatchId (snd e)) (overlays c)"
proof -
  let ?m = "overlays c"
  let ?it = "getIteratorFrom (child col []) ?m"
  let ?P = "\<lambda>e::document_key \<times> overlay. isPrefixOf col (getKey (snd e))"
  let ?Q = "\<lambda>e::document_key \<times> overlay.
    length (getKey (snd e)) = length col + 1 \<and> s < largestBatchId (snd e)"
  let ?R = "\<lambda>e::document_key \<times> overlay. immediateChild col (fst e) \<and> s < largestBatchId (snd e)"
  have srt: "sorted_wrt (<) (map fst ?m)" and keys: "\<And>e. e \<in> set ?m \<Longrightarrow> getKey (snd e) = fst e"
    using assms by (auto simp: cache_wf_def)
  have sub: "set ?it \<subseteq> set ?m"
    by (auto simp: getIteratorFrom_def dest: set_dropWhileD)
  have srt_it: "sorted_wrt (\<lambda>a b. fst a < fst b) ?it"
    using srt by (simp add: getIteratorFrom_def sorted_wrt_map sorted_dropWhile)
  have low: "\<And>e. e \<in> set ?it \<Longrightarrow> child col [] \<le> fst e"
    using set_dropWhile_sorted [OF srt] by (simp add: getIteratorFrom_def)
  have "takeWhile ?P ?it = filter ?P ?it"
  proof (rule takeWhile_filter_sorted [OF srt_it])
    fix x y assume "x \<in> set ?it" "y \<in> set ?it" "fst x < fst y" "?P y"
    then have "getKey (snd x) = fst x" "getKey (snd y) = fst y" "child col [] \<le> fst x"
      "fst x \<le> fst y" "isPrefixOf col (getKey (snd y))"
      using keys sub low by auto
    then show "?P x"
      using prefix_convex [of col "fst x" "fst y"] by simp
  qed
  then have "filter ?Q (takeWhile ?P ?it) = filter ?R ?it"
    using keys sub by (auto simp: immediateChild_def intro!: filter_cong)
  also have "\<dots> = filter ?R ?m"
    unfolding getIteratorFrom_def
    by (rule filter_dropWhile_irrelevant) (use child_le_immediate in fastforce)
  finally have flt: "filter ?Q (takeWhile ?P ?it) = filter ?R ?m" .
  have d: "distinct (map fst [] @ map (\<lambda>e. getKey (snd e)) (filter ?R ?m))"
  proof -
    have eq: "map (\<lambda>e. getKey (snd e)) (filter ?R ?m) = map fst (filter ?R ?m)"
      using keys by (auto intro!: map_cong)
    have "distinct (map fst (filter ?R ?m))"
      using srt by (simp add: sorted_keys_distinct distinct_map_filter)
    then show ?thesis unfolding eq by simp
  qed
  have "map (\<lambda>e. (getKey (snd e), snd e)) (filter ?R ?m) = filter ?R ?m"
    using keys by (auto intro!: map_idI)
  then show ?thesis
    unfolding getOverlaysForCollection_def collectionLoop_fold flt
    using fold_update_fresh [OF d, of snd] by simp
qed


lemma row_wf_fields:
  assumes "row_wf row"
  shows "documentPath row = key (overlayMutation row)"
    and "collectionPath row = butlast (documentPath row)"
    and "collectionGroup row = getCollectionGroup (documentPath row)"
    and "documentPath row \<noteq> []"
    and "getKey (fromDbDocumentOverlay row) = documentPath row"
proof -
  from assms have eq: "row = \<lparr>userId = userId row,
      documentPath = key (overlayMutation row),
      collectionPath = butlast (key (overlayMutation row)),
      collectionGroup = getCollectionGroup (key (overlayMutation row)),
      dbLargestBatchId = dbLargestBatchId row,
      overlayMutation = overlayMutation row\<rparr>"
    by (simp add: row_wf_def toDbDocumentOverlay_def encodeResourcePath_def)
  show dp: "documentPath row = key (overlayMutation row)"
    by (subst eq) simp
  show "collectionPath row = butlast (documentPath row)"
    unfolding dp by (subst eq) simp
  show "collectionGroup row = getCollectionGroup (documentPath row)"
    unfolding dp by (subst eq) simp
  show "documentPath row \<noteq> []"
    using assms by (simp add: row_wf_def)
  show "getKey (fromDbDocumentOverlay row) = documentPath row"
    by (simp add: getKey_def fromDbDocumentOverlay_def dp)
qed

lemma collection_range:
  "bound (uid, col, Num s) (uid, col, PositiveInfinity) True False (u, c, Num x) =
     (u = uid \<and> c = col \<and> s < x)"
  by (auto simp: bound_def)

lemma butlast_immediateChild:
  "k \<noteq> [] \<Longrightarrow> (butlast k = col) = immediateChild col k"
  by (auto simp: immediateChild_def isPrefixOf_def butlast_conv_take)

lemma store_rows:
  assumes "store_wf st" "e \<in> set st"
  shows "fst e = (userId (snd e), documentPath (snd e))" and "row_wf (snd e)"
  using assms by (auto simp: store_wf_def primaryKey_def)

lemma store_paths_distinct:
  assumes "store_wf st"
  shows "distinct (map documentPath (filter (\<lambda>row. userId row = uid \<and> P row) (map snd st)))"
proof -
  have "distinct (map fst st)"
    using assms by (simp add: store_wf_def sorted_keys_distinct)
  moreover have "map fst st = map (\<lambda>row. (userId row, documentPath row)) (map snd st)"
    using store_rows(1) [OF assms] by simp
  ultimately have d: "distinct (map (\<lambda>row. (userId row, documentPath row)) (map snd st))"
    by simp
  have "distinct (map (\<lambda>row. (userId row, documentPath row))
          (filter (\<lambda>row. userId row = uid \<and> P row) (map snd st)))"
    by (rule distinct_map_filter [OF d])
  then show ?thesis
    by (auto simp: distinct_map inj_on_def)
qed

lemma loadAll_set:
  "set (loadAll index rng st) = {row \<in> snd ` set st. inRange index rng row}"
  by (auto simp: loadAll_def)

lemma distinct_map_sort_key:
  "distinct (map f (sort_key g xs)) = distinct (map f xs)"
  by (simp add: distinct_map)

lemma idb_getOverlaysForCollection_rows:
  assumes "store_wf st"
  shows "idb_getOverlaysForCollection uid col s st =
     map (\<lambda>row. (documentPath row, fromDbDocumentOverlay row))
       (loadAll collectionPathOverlayIndex
          (bound (uid, col, Num s) (uid, col, PositiveInfinity) True False) st)"
proof -
  let ?rng = "bound (uid, col, Num s) (uid, col, PositiveInfinity) True False"
  let ?rows = "loadAll collectionPathOverlayIndex ?rng st"
  let ?P = "\<lambda>row. collectionPath row = col \<and> s < dbLargestBatchId row"
  have flt: "filter (inRange collectionPathOverlayIndex ?rng) (map snd st) =
      filter (\<lambda>row. userId row = uid \<and> ?P row) (map snd st)"
    by (rule filter_cong) (auto simp: inRange_def collectionPathOverlayIndex_def collection_range)
  have wf: "\<And>row. row \<in> set ?rows \<Longrightarrow> row_wf row"
    using store_rows(2) [OF assms] by (auto simp: loadAll_set)
  have keys: "map (\<lambda>row. getKey (fromDbDocumentOverlay row)) ?rows = map documentPath ?rows"
    using wf by (auto intro!: map_cong simp: row_wf_fields(5))
  have "distinct (map documentPath ?rows)"
    unfolding loadAll_def flt distinct_map_sort_key by (rule store_paths_distinct [OF assms])
  then have d: "distinct (map fst [] @ map (\<lambda>row. getKey (fromDbDocumentOverlay row)) ?rows)"
    unfolding keys by simp
  have "map (\<lambda>row. (getKey (fromDbDocumentOverlay row), fromDbDocumentOverlay row)) ?rows =
      map (\<lambda>row. (documentPath row, fromDbDocumentOverlay row)) ?rows"
    using wf by (auto intro!: map_cong simp: row_wf_fields(5))
  then show ?thesis
    unfolding idb_getOverlaysForCollection_def encodeResourcePath_def
    using fold_update_fresh [OF d, of fromDbDocumentOverlay] by simp
qed

lemma overlays_getOverlay:
  "cache_wf c \<Longrightarrow> ((k, ov) \<in> set (overlays c)) = (getOverlay c k = Some ov)"
  by (simp add: cache_wf_def getOverlay_def sm_get_def sorted_map_of_iff)

lemma idb_overlays_getOverlay:
  assumes "store_wf st"
  shows "((k, ov) \<in> set (idb_overlays uid st)) = (idb_getOverlay uid st k = Some ov)"
proof
  assume "(k, ov) \<in> set (idb_overlays uid st)"
  then obtain e where e: "e \<in> set st" "userId (snd e) = uid" "documentPath (snd e) = k"
      "ov = fromDbDocumentOverlay (snd e)"
    by (auto simp: idb_overlays_def)
  then have "((uid, k), snd e) \<in> set st"
    using store_rows(1) [OF assms e(1)] by (metis prod.collapse)
  then have "map_of st (uid, k) = Some (snd e)"
    using assms by (simp add: store_wf_def sorted_map_of_iff)
  then show "idb_getOverlay uid st k = Some ov"
    by (simp add: idb_getOverlay_def sm_get_def toDbDocumentOverlayKey_def encodeResourcePath_def e(4))
next
  assume "idb_getOverlay uid st k = Some ov"
  then obtain row where row: "sm_get st (uid, k) = Some row" "ov = fromDbDocumentOverlay row"
    by (auto simp: idb_getOverlay_def toDbDocumentOverlayKey_def encodeResourcePath_def
        split: option.splits)
  then have "((uid, k), row) \<in> set st"
    by (simp add: sm_get_def map_of_SomeD)
  moreover have "userId row = uid" "documentPath row = k"
    using store_lookup [OF assms row(1)] by auto
  ultimately show "(k, ov) \<in> set (idb_overlays uid st)"
    using row(2) by (force simp: idb_overlays_def)
qed

lemma idb_getOverlaysForCollection_set:
  assumes "store_wf st"
  shows "((k, ov) \<in> set (idb_getOverlaysForCollection uid col s st)) =
     ((k, ov) \<in> set (idb_overlays uid st) \<and> immediateChild col k \<and> s < largestBatchId ov)"
proof -
  have child: "\<And>e. e \<in> set st \<Longrightarrow>
      (collectionPath (snd e) = col) = immediateChild col (documentPath (snd e))"
    using store_rows(2) [OF assms] row_wf_fields(2,4) butlast_immediateChild by metis
  have res: "set (idb_getOverlaysForCollection uid col s st) =
      (\<lambda>e. (documentPath (snd e), fromDbDocumentOverlay (snd e))) `
        {e \<in> set st. userId (snd e) = uid \<and> collectionPath (snd e) = col \<and>
           s < dbLargestBatchId (snd e)}"
    unfolding idb_getOverlaysForCollection_rows [OF assms]
    by (auto simp: loadAll_set inRange_def collectionPathOverlayIndex_def collection_range
        image_iff)
  have all: "set (idb_overlays uid st) =
      (\<lambda>e. (documentPath (snd e), fromDbDocumentOverlay (snd e))) `
        {e \<in> set st. userId (snd e) = uid}"
    by (auto simp: idb_overlays_def)
  show ?thesis
  proof
    assume "(k, ov) \<in> set (idb_getOverlaysForCollection uid col s st)"
    then obtain e where e: "e \<in> set st" "userId (snd e) = uid" "collectionPath (snd e) = col"
        "s < dbLargestBatchId (snd e)" "k = documentPath (snd e)"
        "ov = fromDbDocumentOverlay (snd e)"
      unfolding res by auto
    have "(k, ov) \<in> set (idb_overlays uid st)"
      unfolding all using e by blast
    moreover have "immediateChild col k"
      using child [OF e(1)] e(3,5) by simp
    moreover have "s < largestBatchId ov"
      using e(4,6) by (simp add: fromDbDocumentOverlay_def)
    ultimately show "(k, ov) \<in> set (idb_overlays uid st) \<and> immediateChild col k \<and>
        s < largestBatchId ov"
      by simp
  next
    assume a: "(k, ov) \<in> set (idb_overlays uid st) \<and> immediateChild col k \<and>
        s < largestBatchId ov"
    then obtain e where e: "e \<in> set st" "userId (snd e) = uid" "k = documentPath (snd e)"
        "ov = fromDbDocumentOverlay (snd e)"
      unfolding all by auto
    have "collectionPath (snd e) = col"
      using child [OF e(1)] a e(3) by simp
    moreover have "s < dbLargestBatchId (snd e)"
      using a e(4) by (simp add: fromDbDocumentOverlay_def)
    ultimately show "(k, ov) \<in> set (idb_getOverlaysForCollection uid col s st)"
      unfolding res using e by blast
  qed
qed

text \<open>
  Claim C6.  On a well-formed in-memory cache and on a well-formed store of the persistent
  cache, \<open>getOverlaysForCollection(c, s)\<close> returns a map whose entries are exactly the
  overlays of the cache whose key is an immediate child of \<open>c\<close> (the collection is a prefix
  of the path and the path has one segment more) and whose batch id is above \<open>s\<close>.
\<close>

theorem getOverlaysForCollection_exact:
  assumes "cache_wf c" and "store_wf st"
  shows "distinct (map fst (getOverlaysForCollection col s c)) \<and>
    (\<forall>k ov. ((k, ov) \<in> set (getOverlaysForCollection col s c)) =
       (getOverlay c k = Some ov \<and> immediateChild col k \<and> s < largestBatchId ov)) \<and>
    distinct (map fst (idb_getOverlaysForCollection uid col s st)) \<and>
    (\<forall>k ov. ((k, ov) \<in> set (idb_getOverlaysForCollection uid col s st)) =
       (idb_getOverlay uid st k = Some ov \<and> immediateChild col k \<and> s < largestBatchId ov))"
proof -
  have "distinct (map fst (getOverlaysForCollection col s c))"
    using assms(1)
    by (simp add: getOverlaysForCollection_filter cache_wf_def sorted_keys_distinct
        distinct_map_filter)
  moreover have "\<forall>k ov. ((k, ov) \<in> set (getOverlaysForCollection col s c)) =
       (getOverlay c k = Some ov \<and> immediateChild col k \<and> s < largestBatchId ov)"
    using overlays_getOverlay [OF assms(1)]
    by (auto simp: getOverlaysForCollection_filter [OF assms(1)])
  moreover have "distinct (map fst (idb_getOverlaysForCollection uid col s st))"
  proof -
    let ?rng = "bound (uid, col, Num s) (uid, col, PositiveInfinity) True False"
    have flt: "filter (inRange collectionPathOverlayIndex ?rng) (map snd st) =
        filter (\<lambda>row. userId row = uid \<and> collectionPath row = col \<and> s < dbLargestBatchId row)
          (map snd st)"
      by (rule filter_cong)
        (auto simp: inRange_def collectionPathOverlayIndex_def collection_range)
    show ?thesis
      unfolding idb_getOverlaysForCollection_rows [OF assms(2)]
      using store_paths_distinct [OF assms(2)]
      by (simp add: comp_def loadAll_def flt distinct_map_sort_key)
  qed
  moreover have "\<forall>k ov. ((k, ov) \<in> set (idb_getOverlaysForCollection uid col s st)) =
       (idb_getOverlay uid st k = Some ov \<and> immediateChild col k \<and> s < largestBatchId ov)"
    by (simp add: idb_getOverlaysForCollection_set [OF assms(2)]
        idb_overlays_getOverlay [OF assms(2)])
  ultimately show ?thesis by blast
qed


theorem getOverlaysForCollection_exact_witness:
  "cache_wf example_cache \<and> store_wf example_store \<and>
   (distinct (map fst (getOverlaysForCollection [''users''] 3 example_cache)) \<and>
    (\<forall>k ov. ((k, ov) \<in> set (getOverlaysForCollection [''users''] 3 example_cache)) =
       (getOverlay example_cache k = Some ov \<and> immediateChild [''users''] k \<and>
        3 < largestBatchId ov)) \<and>
    distinct (map fst (idb_getOverlaysForCollection ''u'' [''users''] 3 example_store)) \<and>
    (\<forall>k ov. ((k, ov) \<in> set (idb_getOverlaysForCollection ''u'' [''users''] 3 example_store)) =
       (idb_getOverlay ''u'' example_store k = Some ov \<and> immediateChild [''users''] k \<and>
        3 < largestBatchId ov)))"
  by (rule conjI [OF example_cache_wf conjI [OF example_store_wf
        getOverlaysForCollection_exact [OF example_cache_wf example_store_wf]]])

section \<open>The overlays of a collection group\<close>

subsection \<open>The persistent cache\<close>

lemma length_filter_mono:
  "(\<And>x. x \<in> set xs \<Longrightarrow> P x \<Longrightarrow> Q x) \<Longrightarrow> length (filter P xs) \<le> length (filter Q xs)"
  by (induction xs) auto









subsection \<open>The in-memory cache\<close>

lemma entries_of_simps [simp]:
  "entries_of [] = []" "entries_of (x # G) = snd x @ entries_of G"
  "entries_of (G @ H) = entries_of G @ entries_of H"
  by (simp_all add: entries_of_def)














subsection \<open>Whole batches\<close>

lemma whole_batches_mem:
  "whole_batches cg s n stored res \<Longrightarrow>
   (e \<in> set res) =
     (e \<in> set stored \<and> matches cg s e \<and>
      int (below cg s stored (largestBatchId (snd e))) < n)"
  unfolding whole_batches_def by blast

lemma whole_batches_complete:
  assumes "whole_batches cg s n stored res" "e \<in> set res" "e' \<in> set stored" "matches cg s e'"
    "largestBatchId (snd e') \<le> largestBatchId (snd e)"
  shows "e' \<in> set res"
proof -
  have "below cg s stored (largestBatchId (snd e')) \<le> below cg s stored (largestBatchId (snd e))"
    unfolding below_def using assms(5) by (intro length_filter_mono) auto
  moreover have "int (below cg s stored (largestBatchId (snd e))) < n"
    using whole_batches_mem [OF assms(1), of e] assms(2) by blast
  ultimately have "int (below cg s stored (largestBatchId (snd e'))) < n"
    by simp
  then show ?thesis
    using whole_batches_mem [OF assms(1), of e'] assms(3,4) by blast
qed

lemma whole_batches_stop:
  assumes wb: "whole_batches cg s n stored res" and d: "distinct stored"
    and e: "e \<in> set stored" "matches cg s e" "e \<notin> set res"
  shows "n \<le> int (length res)"
proof -
  let ?L = "\<lambda>e::document_key \<times> overlay. largestBatchId (snd e)"
  define S where "S = ?L ` {x \<in> set stored. matches cg s x \<and> x \<notin> set res}"
  have "e \<in> {x \<in> set stored. matches cg s x \<and> x \<notin> set res}"
    using e by blast
  then have "?L e \<in> S"
    unfolding S_def by (rule imageI)
  then have "S \<noteq> {}" by blast
  moreover have "finite S"
    unfolding S_def by simp
  ultimately have "finite S" "S \<noteq> {}" by blast+
  then have "Min S \<in> S" and least: "\<And>b. b \<in> S \<Longrightarrow> Min S \<le> b"
    by simp_all
  then obtain x where x: "x \<in> set stored" "matches cg s x" "x \<notin> set res" "?L x = Min S"
    unfolding S_def by auto
  have "\<not> int (below cg s stored (?L x)) < n"
    using whole_batches_mem [OF wb, of x] x(1,2,3) by blast
  then have big: "n \<le> int (below cg s stored (Min S))"
    using x(4) by simp
  have sub: "set (filter (\<lambda>y. matches cg s y \<and> ?L y < Min S) stored) \<subseteq> set res"
  proof
    fix y assume "y \<in> set (filter (\<lambda>y. matches cg s y \<and> ?L y < Min S) stored)"
    then have y: "y \<in> set stored" "matches cg s y" "?L y < Min S" by auto
    show "y \<in> set res"
    proof (rule ccontr)
      assume "y \<notin> set res"
      then have "?L y \<in> S" unfolding S_def using y(1,2) by blast
      then show False using least y(3) by fastforce
    qed
  qed
  have "distinct (filter (\<lambda>y. matches cg s y \<and> ?L y < Min S) stored)"
    using d by simp
  then have "card (set (filter (\<lambda>y. matches cg s y \<and> ?L y < Min S) stored)) =
      length (filter (\<lambda>y. matches cg s y \<and> ?L y < Min S) stored)"
    by (rule distinct_card)
  then have "below cg s stored (Min S) =
      card (set (filter (\<lambda>y. matches cg s y \<and> ?L y < Min S) stored))"
    unfolding below_def by (rule sym)
  also have "\<dots> \<le> card (set res)"
    using sub by (intro card_mono) simp_all
  also have "\<dots> \<le> length res"
    by (rule card_length)
  finally show ?thesis
    using big by simp
qed









section \<open>The two caches side by side\<close>







section \<open>Recalculating overlays\<close>

subsection \<open>The first continuation\<close>








subsection \<open>The second continuation\<close>


lemma idb_getOverlay_put:
  "idb_getOverlay uid (put row st) k =
     (if primaryKey row = (uid, k) then Some (fromDbDocumentOverlay row)
      else idb_getOverlay uid st k)"
  by (simp add: idb_getOverlay_def put_def sm_get_def map_of_sm_insert
      toDbDocumentOverlayKey_def encodeResourcePath_def)


text \<open>The persistent cache installs the overlay of a single entry, over any overlay the
  key had; the in-memory cache returns at once on an absent mutation.\<close>

lemma idb_saveOverlays_single:
  "fst (idb_saveOverlays uid b [(k, Some m)] st) = None \<and>
   idb_getOverlay uid (snd (idb_saveOverlays uid b [(k, Some m)] st)) (key m) =
     Some \<lparr>largestBatchId = b, mutation = m\<rparr>"
  by (simp add: idb_saveOverlay_def toDbDocumentOverlay_def idb_getOverlay_put primaryKey_def
      fromDbDocumentOverlay_def encodeResourcePath_def)

lemma saveOverlay_absent: "saveOverlay b None c = (None, c)"
  by (simp add: saveOverlay_def)









end
